theory Spec2Isabelle
  imports Main "HOL-Library.Char_ord" "HOL-Library.List_Lexorder" "HOL-Library.Product_Lexorder"
begin

section \<open>The column catalog (sentry/eventstore/base.py, class Columns)\<close>

text \<open>
  The enumeration \<^verbatim>\<open>Columns\<close> of the source, one constructor per member, in the
  source's order. \<open>Columns_value\<close> is the member's value, the backend column name.
\<close>

datatype Columns =
    event_id | group_id | project_id | timestamp
  | culprit | location | message | platform | title | type
  | tags_key | tags_value
  | email | ip_address | user_id | username

fun Columns_value :: "Columns \<Rightarrow> string" where
  "Columns_value Columns.event_id = ''event_id''"
| "Columns_value Columns.group_id = ''group_id''"
| "Columns_value Columns.project_id = ''project_id''"
| "Columns_value Columns.timestamp = ''timestamp''"
| "Columns_value Columns.culprit = ''culprit''"
| "Columns_value Columns.location = ''location''"
| "Columns_value Columns.message = ''message''"
| "Columns_value Columns.platform = ''platform''"
| "Columns_value Columns.title = ''title''"
| "Columns_value Columns.type = ''type''"
| "Columns_value Columns.tags_key = ''tags.key''"
| "Columns_value Columns.tags_value = ''tags.value''"
| "Columns_value Columns.email = ''email''"
| "Columns_value Columns.ip_address = ''ip_address''"
| "Columns_value Columns.user_id = ''user_id''"
| "Columns_value Columns.username = ''username''"

text \<open>\<^verbatim>\<open>EventStorage.minimal_columns\<close> and \<^verbatim>\<open>EventStorage.full_columns\<close>; the second is
  built from the first by list concatenation, as in the source.\<close>

definition minimal_columns :: "Columns list" where
  "minimal_columns =
     [Columns.event_id, Columns.group_id, Columns.project_id, Columns.timestamp]"

definition full_columns :: "Columns list" where
  "full_columns = minimal_columns @
     [Columns.culprit, Columns.location, Columns.message, Columns.platform,
      Columns.title, Columns.type,
      Columns.tags_key, Columns.tags_value,
      Columns.email, Columns.ip_address, Columns.user_id, Columns.username]"

section \<open>Errors\<close>

text \<open>
  The exceptions of the model. \<open>NotImplementedError\<close> is what the four abstract query
  methods of \<^verbatim>\<open>EventStorage\<close> raise; \<open>TypeError\<close> is what a call raises that leaves
  out a parameter declared without a default; \<open>AttributeError\<close> is what \<^verbatim>\<open>getattr\<close>
  raises on an object without the attribute; \<open>NotFound\<close>, \<open>BackendUnavailable\<close> and
  \<open>InvalidColumnSet\<close> are the error taxonomy the specification gives the service.
\<close>

datatype error =
    NotImplementedError
  | TypeError
  | AttributeError
  | NotFound
  | BackendUnavailable
  | InvalidColumnSet

section \<open>Objects that \<^verbatim>\<open>bind_nodes\<close> works on\<close>

text \<open>
  A node id is a Python value that is either \<^verbatim>\<open>None\<close> or a \<^verbatim>\<open>str\<close>; the blob that the
  node store keeps under it is \<^verbatim>\<open>None\<close> or a dict, written as an association list.
  \<open>truthy\<close> and \<open>truthy_blob\<close> are Python's truth value of the two: \<^verbatim>\<open>None\<close>, the empty
  string and the empty dict are false.
\<close>

type_synonym node_key = "string option"
type_synonym body = "(string \<times> string) list"
type_synonym addr = nat

fun truthy :: "node_key \<Rightarrow> bool" where
  "truthy None = False"
| "truthy (Some s) = (s \<noteq> [])"

fun truthy_blob :: "body option \<Rightarrow> bool" where
  "truthy_blob None = False"
| "truthy_blob (Some b) = (b \<noteq> [])"

text \<open>
  A \<^verbatim>\<open>NodeData\<close> object: its \<^verbatim>\<open>id\<close>, the body bound to it (\<open>None\<close> while nothing is
  bound) and the \<^verbatim>\<open>ref\<close> stored with the body. NodeData objects are mutable and may be
  shared, so they live in a store, addressed by \<open>addr\<close>; an event holds the address of
  the NodeData found under each of its attribute names.
\<close>

record 'r NodeData =
  nd_id :: node_key
  nd_data :: "body option"
  nd_ref :: "'r option"

record Event =
  ev_project_id :: int
  ev_event_id :: string
  ev_attrs :: "string \<rightharpoonup> addr"

text \<open>
  The state the call runs in: the store of NodeData objects, and the log of the key
  lists handed to \<^verbatim>\<open>nodestore.get_multi\<close>, one entry per call, oldest first.
\<close>

record 'r state =
  nodes :: "addr \<Rightarrow> 'r NodeData"
  get_multi_calls :: "node_key list list"

text \<open>
  Modelled from the spec: \<^verbatim>\<open>NodeData.bind_data\<close> is not among the source files. The
  specification says that hydration populates the node reference's body field in
  place and leaves everything else alone; the call \<^verbatim>\<open>node.bind_data(data, ref=r)\<close>
  therefore stores the body and the ref and keeps the node id.
\<close>

definition bind_data :: "'r NodeData \<Rightarrow> body \<Rightarrow> 'r option \<Rightarrow> 'r NodeData" where
  "bind_data node data r = node\<lparr>nd_data := Some data, nd_ref := r\<rparr>"

text \<open>\<^verbatim>\<open>d.get(k)\<close> on a dict whose values may be \<^verbatim>\<open>None\<close>, and \<^verbatim>\<open>x or {}\<close>.\<close>

definition dict_get :: "('k \<rightharpoonup> 'v option) \<Rightarrow> 'k \<Rightarrow> 'v option" where
  "dict_get d k = (case d k of None \<Rightarrow> None | Some v \<Rightarrow> v)"

definition or_empty :: "body option \<Rightarrow> body" where
  "or_empty x = (if truthy_blob x then (case x of Some b \<Rightarrow> b | None \<Rightarrow> []) else [])"

section \<open>\<^verbatim>\<open>EventStorage.bind_nodes\<close>\<close>

text \<open>
  The list comprehension of lines 132-133: for each object in order, \<^verbatim>\<open>getattr\<close> the
  attribute (\<open>AttributeError\<close> when the object has none of that name) and keep the
  pair of the object and its NodeData when the NodeData's id is true.
\<close>

fun object_node_list ::
  "(addr \<Rightarrow> 'r NodeData) \<Rightarrow> string \<Rightarrow> Event list \<Rightarrow> error + (Event \<times> addr) list" where
  "object_node_list h node_name [] = Inr []"
| "object_node_list h node_name (i # object_list) =
     (case ev_attrs i node_name of
        None \<Rightarrow> Inl AttributeError
      | Some a \<Rightarrow>
          (case object_node_list h node_name object_list of
             Inl e \<Rightarrow> Inl e
           | Inr rest \<Rightarrow> Inr (if truthy (nd_id (h a)) then (i, a) # rest else rest)))"

text \<open>
  The loop of lines 141-143. \<^verbatim>\<open>node.id\<close> and \<^verbatim>\<open>node.get_ref(item)\<close> are read from
  the store as it is when the iteration runs. \<^verbatim>\<open>NodeData.get_ref\<close> is not among the
  source files and is a parameter.
\<close>

fun bind_loop ::
  "('r NodeData \<Rightarrow> Event \<Rightarrow> 'r option) \<Rightarrow> (node_key \<rightharpoonup> body option) \<Rightarrow>
   (Event \<times> addr) list \<Rightarrow> (addr \<Rightarrow> 'r NodeData) \<Rightarrow> (addr \<Rightarrow> 'r NodeData)" where
  "bind_loop get_ref node_results [] h = h"
| "bind_loop get_ref node_results ((item, a) # rest) h =
     (let node = h a;
          data = or_empty (dict_get node_results (nd_id node))
      in bind_loop get_ref node_results rest
           (h(a := bind_data node data (get_ref node item))))"

text \<open>
  \<^verbatim>\<open>bind_nodes(self, object_list, node_name)\<close>. \<open>get_multi\<close> is the node store's
  multi-get, an external service: it answers a key list with a dict or fails. The
  result is the exception raised, if any, and the state the call leaves.
\<close>

definition bind_nodes ::
  "(node_key list \<Rightarrow> error + (node_key \<rightharpoonup> body option)) \<Rightarrow>
   ('r NodeData \<Rightarrow> Event \<Rightarrow> 'r option) \<Rightarrow>
   'r state \<Rightarrow> Event list \<Rightarrow> string \<Rightarrow> error option \<times> 'r state" where
  "bind_nodes get_multi get_ref s object_list node_name =
     (case object_node_list (nodes s) node_name object_list of
        Inl e \<Rightarrow> (Some e, s)
      | Inr onl \<Rightarrow>
          (let node_ids = map (\<lambda>(_, a). nd_id (nodes s a)) onl in
           if node_ids = [] then (None, s)
           else
             (let s1 = s\<lparr>get_multi_calls := get_multi_calls s @ [node_ids]\<rparr> in
              case get_multi node_ids of
                Inl e \<Rightarrow> (Some e, s1)
              | Inr node_results \<Rightarrow>
                  (None, s1\<lparr>nodes := bind_loop get_ref node_results onl (nodes s1)\<rparr>))))"

text \<open>The default of the parameter \<^verbatim>\<open>node_name\<close>.\<close>

definition node_name_default :: string where
  "node_name_default = ''data''"

text \<open>
  What the claims speak of: the node id an event carries under the attribute
  \<open>node_name\<close> (\<^verbatim>\<open>getattr(i, node_name).id\<close>, \<open>None\<close> also for an event without the
  attribute), and whether the event carries one, which is Python's truth value of
  that id.
\<close>

definition event_node_id :: "(addr \<Rightarrow> 'r NodeData) \<Rightarrow> string \<Rightarrow> Event \<Rightarrow> node_key" where
  "event_node_id h node_name i =
     (case ev_attrs i node_name of None \<Rightarrow> None | Some a \<Rightarrow> nd_id (h a))"

definition has_node_id :: "(addr \<Rightarrow> 'r NodeData) \<Rightarrow> string \<Rightarrow> Event \<Rightarrow> bool" where
  "has_node_id h node_name i = truthy (event_node_id h node_name i)"

subsection \<open>A concrete store, node store and batch of events\<close>

text \<open>
  Four NodeData objects: two distinct objects with the same id \<^verbatim>\<open>'a'\<close>, one with id
  \<^verbatim>\<open>'b'\<close>, and one without an id that already holds a body. The node store knows
  \<^verbatim>\<open>'a'\<close> only. Event \<^verbatim>\<open>e\<close>\<open>k\<close> holds object \<open>k - 1\<close> under the attribute \<^verbatim>\<open>data\<close>.
\<close>

definition ex_nodes :: "addr \<Rightarrow> int NodeData" where
  "ex_nodes =
     (\<lambda>a. \<lparr>nd_id = None, nd_data = None, nd_ref = None\<rparr>)
       (0 := \<lparr>nd_id = Some ''a'', nd_data = None, nd_ref = None\<rparr>,
        1 := \<lparr>nd_id = Some ''a'', nd_data = None, nd_ref = None\<rparr>,
        2 := \<lparr>nd_id = Some ''b'', nd_data = None, nd_ref = None\<rparr>,
        3 := \<lparr>nd_id = None, nd_data = Some [(''k'', ''v'')], nd_ref = None\<rparr>)"

definition ex_state :: "int state" where
  "ex_state = \<lparr>nodes = ex_nodes, get_multi_calls = []\<rparr>"

definition ex_event :: "string \<Rightarrow> addr \<Rightarrow> Event" where
  "ex_event e a = \<lparr>ev_project_id = 42, ev_event_id = e, ev_attrs = [''data'' \<mapsto> a]\<rparr>"

definition ex_events :: "Event list" where
  "ex_events = [ex_event ''e1'' 0, ex_event ''e2'' 1, ex_event ''e3'' 2, ex_event ''e4'' 3]"

definition ex_get_multi :: "node_key list \<Rightarrow> error + (node_key \<rightharpoonup> body option)" where
  "ex_get_multi ks = Inr [Some ''a'' \<mapsto> Some [(''message'', ''boom'')]]"

definition ex_get_ref :: "int NodeData \<Rightarrow> Event \<Rightarrow> int option" where
  "ex_get_ref node item = Some (ev_project_id item)"

section \<open>The query methods\<close>

text \<open>
  \<^verbatim>\<open>get_event_by_id\<close>, \<^verbatim>\<open>get_events\<close>, \<^verbatim>\<open>get_next_event_id\<close> and \<^verbatim>\<open>get_prev_event_id\<close>
  as the source has them: \<^verbatim>\<open>EventStorage\<close> is the service's interface, each of the
  four raises \<^verbatim>\<open>NotImplementedError\<close> whatever its arguments, and none of them
  declares a default value for a parameter. The backend that implements them is not
  among the source files.
\<close>

definition get_event_by_id :: "int \<Rightarrow> string \<Rightarrow> Columns list \<Rightarrow> error + 'event" where
  "get_event_by_id pid eid cols = Inl NotImplementedError"


definition get_next_event_id :: "'event \<Rightarrow> 'conditions \<Rightarrow> 'filter_keys \<Rightarrow> error + int \<times> string" where
  "get_next_event_id event conditions filter_keys = Inl NotImplementedError"

definition get_prev_event_id :: "'event \<Rightarrow> 'conditions \<Rightarrow> 'filter_keys \<Rightarrow> error + int \<times> string" where
  "get_prev_event_id event conditions filter_keys = Inl NotImplementedError"




subsection \<open>The query methods as the specification describes them\<close>

text \<open>
  Modelled from the spec: the rows of the query backend, which is not among the
  source files. A stored event has a project id, an event id unique within the
  project, an optional group id, a timestamp (seconds since the epoch) and the values
  of the queryable columns.
\<close>

record Row =
  row_project_id :: int
  row_event_id :: string
  row_group_id :: "int option"
  row_timestamp :: int
  row_values :: "Columns \<rightharpoonup> string"

text \<open>Modelled from the spec: the pair (project id, event id), the unique key of an
  event and the value that the next and previous lookups return.\<close>

definition row_key :: "Row \<Rightarrow> int \<times> string" where
  "row_key r = (row_project_id r, row_event_id r)"

text \<open>Modelled from the spec: the event returned for a row has exactly the requested
  columns populated.\<close>

definition project_row :: "Columns list \<Rightarrow> Row \<Rightarrow> Row" where
  "project_row cols r = r\<lparr>row_values := row_values r |` set cols\<rparr>"

text \<open>Modelled from the spec: a requested column list must be a subset of
  \<open>full_columns\<close>; a request that is not fails with \<open>InvalidColumnSet\<close>.\<close>

definition valid_columns :: "Columns list \<Rightarrow> bool" where
  "valid_columns cols = list_all (\<lambda>c. c \<in> set full_columns) cols"

text \<open>
  Modelled from the spec: the backend's \<^verbatim>\<open>get_event_by_id\<close>, which is not among the
  source files. It returns the event of the row with the given (project id, event
  id) and fails with \<open>NotFound\<close> when no row has that pair. The backend is taken to
  be reachable: \<open>BackendUnavailable\<close> is not modelled.
\<close>

definition spec_get_event_by_id ::
  "Row list \<Rightarrow> int \<Rightarrow> string \<Rightarrow> Columns list \<Rightarrow> error + Row" where
  "spec_get_event_by_id rows pid eid cols =
     (if \<not> valid_columns cols then Inl InvalidColumnSet
      else (case find (\<lambda>r. row_key r = (pid, eid)) rows of
              None \<Rightarrow> Inl NotFound
            | Some r \<Rightarrow> Inr (project_row cols r)))"

text \<open>
  Modelled from the spec: \<^verbatim>\<open>conditions\<close> is a conjunction of backend predicates, and
  \<^verbatim>\<open>filter_keys\<close> restricts the rows to some scopes; how the backend reads a filter
  key is left open by the specification, so it is an arbitrary predicate here.
\<close>

definition matches :: "(Row \<Rightarrow> bool) list \<Rightarrow> (Row \<Rightarrow> bool) \<Rightarrow> Row \<Rightarrow> bool" where
  "matches conditions filter_keys r = (list_all (\<lambda>c. c r) conditions \<and> filter_keys r)"

text \<open>Modelled from the spec: the default ordering, descending by time and then
  descending by event id.\<close>

definition default_order :: "Row list \<Rightarrow> Row list" where
  "default_order rs = rev (sort_key (\<lambda>r. (row_timestamp r, row_event_id r)) rs)"

text \<open>
  Modelled from the spec: the backend's \<^verbatim>\<open>get_events\<close> under the default ordering
  (other orderings are not modelled): the rows in the time range that match the
  conditions and filter keys, in the default order, from \<open>offset\<close> on and at most
  \<open>limit\<close> of them, each with the requested columns.
\<close>

definition spec_get_events ::
  "Row list \<Rightarrow> int \<Rightarrow> int \<Rightarrow> Columns list \<Rightarrow> (Row \<Rightarrow> bool) list \<Rightarrow> (Row \<Rightarrow> bool) \<Rightarrow>
   nat \<Rightarrow> nat \<Rightarrow> error + Row list" where
  "spec_get_events rows start until cols conditions filter_keys limit offset =
     (if \<not> valid_columns cols then Inl InvalidColumnSet
      else Inr (map (project_row cols)
        (take limit (drop offset (default_order
           (filter (\<lambda>r. start \<le> row_timestamp r \<and> row_timestamp r \<le> until \<and>
                         matches conditions filter_keys r) rows))))))"

text \<open>Modelled from the spec: the element that comes right after the first element
  satisfying \<open>p\<close>, if there is one.\<close>

fun next_after :: "('a \<Rightarrow> bool) \<Rightarrow> 'a list \<Rightarrow> 'a option" where
  "next_after p [] = None"
| "next_after p [x] = None"
| "next_after p (x # y # ys) = (if p x then Some y else next_after p (y # ys))"

text \<open>Modelled from the spec: all matching rows in the default order, the view that
  next and previous step through (no time range, limit or offset).\<close>

definition listing :: "Row list \<Rightarrow> (Row \<Rightarrow> bool) list \<Rightarrow> (Row \<Rightarrow> bool) \<Rightarrow> Row list" where
  "listing rows conditions filter_keys =
     default_order (filter (matches conditions filter_keys) rows)"

text \<open>
  Modelled from the spec: the backend's \<^verbatim>\<open>get_next_event_id\<close> and
  \<^verbatim>\<open>get_prev_event_id\<close>, which are not among the source files. The reference event is
  located in the listing by its key. By the specification's testable property 4 and
  its example scenario, the previous event is the next older one, which follows the
  reference event in the default (newest first) order, and the next event is the next
  newer one, which precedes it there; each lookup fails with \<open>NotFound\<close> when there is
  no such row.
\<close>

definition spec_get_next_event_id ::
  "Row list \<Rightarrow> Row \<Rightarrow> (Row \<Rightarrow> bool) list \<Rightarrow> (Row \<Rightarrow> bool) \<Rightarrow> error + int \<times> string" where
  "spec_get_next_event_id rows event conditions filter_keys =
     (case next_after (\<lambda>r. row_key r = row_key event)
             (rev (listing rows conditions filter_keys)) of
        None \<Rightarrow> Inl NotFound
      | Some r \<Rightarrow> Inr (row_key r))"

definition spec_get_prev_event_id ::
  "Row list \<Rightarrow> Row \<Rightarrow> (Row \<Rightarrow> bool) list \<Rightarrow> (Row \<Rightarrow> bool) \<Rightarrow> error + int \<times> string" where
  "spec_get_prev_event_id rows event conditions filter_keys =
     (case next_after (\<lambda>r. row_key r = row_key event)
             (listing rows conditions filter_keys) of
        None \<Rightarrow> Inl NotFound
      | Some r \<Rightarrow> Inr (row_key r))"

subsection \<open>The example scenario of the specification\<close>

text \<open>Project 42 with the events \<^verbatim>\<open>e1\<close> (t = 100), \<^verbatim>\<open>e2\<close> (t = 200) and \<^verbatim>\<open>e3\<close>
  (t = 300), stored in no particular order.\<close>

definition ex_row :: "string \<Rightarrow> int \<Rightarrow> Row" where
  "ex_row e t = \<lparr>row_project_id = 42, row_event_id = e, row_group_id = None,
                 row_timestamp = t, row_values = [Columns.message \<mapsto> ''boom'']\<rparr>"

definition ex_rows :: "Row list" where
  "ex_rows = [ex_row ''e2'' 200, ex_row ''e1'' 100, ex_row ''e3'' 300]"

section \<open>The column catalog: properties\<close>

lemma full_columns_cover: "set full_columns = UNIV"
proof -
  have "c \<in> set full_columns" for c
    by (cases c) (simp_all add: full_columns_def minimal_columns_def)
  then show ?thesis by auto
qed

text \<open>
  C7. \<open>minimal_columns\<close> is the sequence event id, group id, project id, timestamp;
  \<open>full_columns\<close> is that sequence followed by culprit, location, message, platform,
  title, type, the tags key and value, and the user fields email, ip address, user id
  and username; and every element of \<open>minimal_columns\<close> is an element of
  \<open>full_columns\<close>.
\<close>

theorem minimal_and_full_columns:
  "minimal_columns =
     [Columns.event_id, Columns.group_id, Columns.project_id, Columns.timestamp] \<and>
   full_columns = minimal_columns @
     [Columns.culprit, Columns.location, Columns.message, Columns.platform,
      Columns.title, Columns.type, Columns.tags_key, Columns.tags_value,
      Columns.email, Columns.ip_address, Columns.user_id, Columns.username] \<and>
   set minimal_columns \<subseteq> set full_columns"
  by (simp add: minimal_columns_def full_columns_def)

section \<open>\<^verbatim>\<open>bind_nodes\<close>: the comprehension and the loop\<close>

lemma object_node_list_total:
  "\<forall>i\<in>set xs. ev_attrs i n \<noteq> None \<Longrightarrow> \<exists>onl. object_node_list h n xs = Inr onl"
  by (induction xs) (auto split: option.splits sum.splits)

lemma object_node_list_keys:
  "object_node_list h n xs = Inr onl \<Longrightarrow>
     map (\<lambda>(_, a). nd_id (h a)) onl = filter truthy (map (event_node_id h n) xs)"
  by (induction xs arbitrary: onl)
     (auto simp: event_node_id_def split: option.splits sum.splits if_splits)

lemma object_node_list_mem:
  "object_node_list h n xs = Inr onl \<Longrightarrow> (i, a) \<in> set onl \<Longrightarrow>
     i \<in> set xs \<and> ev_attrs i n = Some a \<and> truthy (nd_id (h a))"
  by (induction xs arbitrary: onl)
     (auto split: option.splits sum.splits if_splits)

lemma object_node_list_mem_conv:
  "object_node_list h n xs = Inr onl \<Longrightarrow> i \<in> set xs \<Longrightarrow> ev_attrs i n = Some a \<Longrightarrow>
     truthy (nd_id (h a)) \<Longrightarrow> (i, a) \<in> set onl"
  by (induction xs arbitrary: onl)
     (auto split: option.splits sum.splits if_splits)

lemma object_node_list_filter:
  "\<forall>i\<in>set xs. ev_attrs i n \<noteq> None \<Longrightarrow>
     object_node_list h n (filter (has_node_id h n) xs) = object_node_list h n xs"
proof (induction xs)
  case Nil
  then show ?case by simp
next
  case (Cons i xs)
  then obtain a where a: "ev_attrs i n = Some a" by auto
  from Cons.prems obtain rest where rest: "object_node_list h n xs = Inr rest"
    using object_node_list_total [of xs n h] by auto
  with Cons a show ?case
    by (simp add: has_node_id_def event_node_id_def)
qed

lemma bind_data_id: "nd_id (bind_data node d r) = nd_id node"
  by (simp add: bind_data_def)

lemma bind_loop_id: "nd_id (bind_loop gr res onl h a) = nd_id (h a)"
  by (induction onl arbitrary: h) (auto simp: bind_data_id Let_def)

lemma bind_loop_other: "a \<notin> snd ` set onl \<Longrightarrow> bind_loop gr res onl h a = h a"
  by (induction onl arbitrary: h) (auto simp: Let_def)

lemma bind_loop_data:
  "a \<in> snd ` set onl \<Longrightarrow>
     nd_data (bind_loop gr res onl h a) = Some (or_empty (dict_get res (nd_id (h a))))"
proof (induction onl arbitrary: h)
  case Nil
  then show ?case by simp
next
  case (Cons p onl)
  obtain item b where p: "p = (item, b)" by (cases p)
  let ?h = "h(b := bind_data (h b) (or_empty (dict_get res (nd_id (h b)))) (gr (h b) item))"
  have step: "bind_loop gr res (p # onl) h = bind_loop gr res onl ?h"
    by (simp add: p Let_def)
  have idh: "nd_id (?h a) = nd_id (h a)" by (simp add: bind_data_id)
  show ?case
  proof (cases "a \<in> snd ` set onl")
    case True
    have "nd_data (bind_loop gr res onl ?h a) = Some (or_empty (dict_get res (nd_id (?h a))))"
      by (rule Cons.IH [OF True])
    then show ?thesis unfolding step idh .
  next
    case False
    with Cons.prems p have ab: "a = b" by auto
    from False have "bind_loop gr res onl ?h a = ?h a" by (rule bind_loop_other)
    with step ab show ?thesis by (simp add: bind_data_def)
  qed
qed

lemma keys_empty_conv:
  "filter truthy (map (event_node_id h n) xs) = [] \<longleftrightarrow> \<not> (\<exists>i\<in>set xs. has_node_id h n i)"
  by (auto simp: filter_empty_conv has_node_id_def)

text \<open>The call, once the comprehension has gone through without an \<open>AttributeError\<close>.\<close>

lemma bind_nodes_unfold:
  assumes "object_node_list (nodes s) n xs = Inr onl"
  shows "bind_nodes gm gr s xs n =
     (let keys = filter truthy (map (event_node_id (nodes s) n) xs) in
      if keys = [] then (None, s)
      else (case gm keys of
              Inl e \<Rightarrow> (Some e, s\<lparr>get_multi_calls := get_multi_calls s @ [keys]\<rparr>)
            | Inr res \<Rightarrow>
                (None, s\<lparr>get_multi_calls := get_multi_calls s @ [keys],
                          nodes := bind_loop gr res onl (nodes s)\<rparr>)))"
  using assms object_node_list_keys [OF assms]
  by (simp add: bind_nodes_def Let_def split: sum.splits)

lemmas ex_defs =
  ex_nodes_def ex_state_def ex_event_def ex_events_def ex_get_multi_def ex_get_ref_def

section \<open>\<^verbatim>\<open>bind_nodes\<close>: the claims\<close>

text \<open>
  In the theorems below \<open>gm\<close> is the node store's multi-get and \<open>gr\<close> is
  \<^verbatim>\<open>NodeData.get_ref\<close>, both arbitrary; \<open>s\<close> is the state before the call, \<open>xs\<close> the
  list of events and \<open>n\<close> the attribute name. The hypothesis that every event has the
  attribute \<open>n\<close> says that the comprehension raises no \<open>AttributeError\<close>.
\<close>

text \<open>
  C1, as the code has it. An invocation of \<^verbatim>\<open>bind_nodes\<close> performs exactly one
  multi-get call when at least one event of the input carries a node id, and none
  when no event does (the early return of lines 136-137): the call log grows by
  one entry in the first case and by none in the second.
\<close>

theorem bind_nodes_call_count:
  assumes "\<forall>i\<in>set xs. ev_attrs i n \<noteq> None"
  shows "length (get_multi_calls (snd (bind_nodes gm gr s xs n))) =
         length (get_multi_calls s) +
           (if \<exists>i\<in>set xs. has_node_id (nodes s) n i then 1 else 0)"
proof -
  from assms obtain onl where onl: "object_node_list (nodes s) n xs = Inr onl"
    using object_node_list_total [of xs n "nodes s"] by auto
  show ?thesis
    using keys_empty_conv [of "nodes s" n xs]
    by (simp add: bind_nodes_unfold [OF onl] Let_def split: sum.splits)
qed

theorem bind_nodes_call_count_witness:
  "list_all (\<lambda>i. ev_attrs i ''data'' \<noteq> None) ex_events \<and>
   length (get_multi_calls (snd (bind_nodes ex_get_multi ex_get_ref ex_state ex_events ''data''))) = 1 \<and>
   length (get_multi_calls
     (snd (bind_nodes ex_get_multi ex_get_ref ex_state [ex_event ''e4'' 3] ''data''))) = 0"
proof -
  have h1: "\<forall>i\<in>set ex_events. ev_attrs i ''data'' \<noteq> None"
    by (simp add: ex_defs)
  have h2: "\<forall>i\<in>set [ex_event ''e4'' 3]. ev_attrs i ''data'' \<noteq> None"
    by (simp add: ex_defs)
  show ?thesis
    using h1 bind_nodes_call_count [OF h1, of ex_get_multi ex_get_ref ex_state]
      bind_nodes_call_count [OF h2, of ex_get_multi ex_get_ref ex_state]
    by (simp add: ex_defs has_node_id_def event_node_id_def list_all_iff)
qed

text \<open>
  C1 as stated fails: on an empty list, and on a list whose only event carries no
  node id, the call returns with no multi-get call made.
\<close>

theorem bind_nodes_one_call_counterexample:
  "get_multi_calls ex_state = [] \<and>
   get_multi_calls (snd (bind_nodes ex_get_multi ex_get_ref ex_state [] ''data'')) = [] \<and>
   get_multi_calls
     (snd (bind_nodes ex_get_multi ex_get_ref ex_state [ex_event ''e4'' 3] ''data'')) = []"
  by (simp add: bind_nodes_def ex_defs)

text \<open>
  C2, as the code has it. Within a single \<^verbatim>\<open>bind_nodes\<close> call that finds a node id,
  all node ids are requested by the one multi-get call, whose key list holds one
  entry per input event that carries a node id, in input order: a node id shared by
  several events is listed once per such event, the list is not deduplicated.
\<close>

theorem bind_nodes_key_list:
  assumes "\<forall>i\<in>set xs. ev_attrs i n \<noteq> None"
      and "\<exists>i\<in>set xs. has_node_id (nodes s) n i"
  shows "get_multi_calls (snd (bind_nodes gm gr s xs n)) =
         get_multi_calls s @
           [map (event_node_id (nodes s) n) (filter (has_node_id (nodes s) n) xs)]"
proof -
  from assms obtain onl where onl: "object_node_list (nodes s) n xs = Inr onl"
    using object_node_list_total [of xs n "nodes s"] by auto
  have eq: "map (event_node_id (nodes s) n) (filter (has_node_id (nodes s) n) xs) =
            filter truthy (map (event_node_id (nodes s) n) xs)"
    by (simp add: filter_map comp_def has_node_id_def [abs_def])
  show ?thesis
    using keys_empty_conv [of "nodes s" n xs] assms(2)
    by (simp add: bind_nodes_unfold [OF onl] Let_def eq split: sum.splits)
qed

theorem bind_nodes_key_list_witness:
  "list_all (\<lambda>i. ev_attrs i ''data'' \<noteq> None) ex_events \<and>
   has_node_id (nodes ex_state) ''data'' (ex_event ''e1'' 0) \<and>
   get_multi_calls (snd (bind_nodes ex_get_multi ex_get_ref ex_state ex_events ''data'')) =
     [[Some ''a'', Some ''a'', Some ''b'']]"
proof -
  have h1: "\<forall>i\<in>set ex_events. ev_attrs i ''data'' \<noteq> None"
    by (simp add: ex_defs)
  have h2: "\<exists>i\<in>set ex_events. has_node_id (nodes ex_state) ''data'' i"
    by (simp add: ex_defs has_node_id_def event_node_id_def)
  show ?thesis
    using h1 bind_nodes_key_list [OF h1 h2, of ex_get_multi ex_get_ref]
    by (simp add: ex_defs has_node_id_def event_node_id_def list_all_iff)
qed

text \<open>
  C2 as stated fails: two events whose (distinct) NodeData objects share the node id
  \<^verbatim>\<open>'a'\<close> make the key list of the multi-get hold \<^verbatim>\<open>'a'\<close> twice.
\<close>

theorem bind_nodes_distinct_keys_counterexample:
  "get_multi_calls
     (snd (bind_nodes ex_get_multi ex_get_ref ex_state
        [ex_event ''e1'' 0, ex_event ''e2'' 1] ''data'')) = [[Some ''a'', Some ''a'']] \<and>
   \<not> distinct (last (get_multi_calls
     (snd (bind_nodes ex_get_multi ex_get_ref ex_state
        [ex_event ''e1'' 0, ex_event ''e2'' 1] ''data''))))"
  by (simp add: bind_nodes_def ex_defs Let_def)

text \<open>
  C3. When the multi-get answers, every event of the input whose node id is not a key
  of the answer has the empty body bound to its node reference, and the call raises
  nothing.
\<close>

theorem bind_nodes_missing_blob:
  assumes "\<forall>i\<in>set xs. ev_attrs i n \<noteq> None"
      and "gm (filter truthy (map (event_node_id (nodes s) n) xs)) = Inr node_results"
      and "i \<in> set xs" and "ev_attrs i n = Some a" and "truthy (nd_id (nodes s a))"
      and "nd_id (nodes s a) \<notin> dom node_results"
  shows "fst (bind_nodes gm gr s xs n) = None \<and>
         nd_data (nodes (snd (bind_nodes gm gr s xs n)) a) = Some []"
proof -
  from assms(1) obtain onl where onl: "object_node_list (nodes s) n xs = Inr onl"
    using object_node_list_total [of xs n "nodes s"] by auto
  have mem: "(i, a) \<in> set onl"
    using onl assms(3-5) by (rule object_node_list_mem_conv)
  then have a: "a \<in> snd ` set onl" by force
  have "has_node_id (nodes s) n i"
    using assms(4,5) by (simp add: has_node_id_def event_node_id_def)
  with assms(3) have ne: "filter truthy (map (event_node_id (nodes s) n) xs) \<noteq> []"
    using keys_empty_conv [of "nodes s" n xs] by auto
  have absent: "dict_get node_results (nd_id (nodes s a)) = None"
    using assms(6) by (simp add: dict_get_def domIff)
  show ?thesis
    using ne assms(2) bind_loop_data [OF a, of gr node_results "nodes s"] absent
    by (simp add: bind_nodes_unfold [OF onl] Let_def or_empty_def)
qed

theorem bind_nodes_missing_blob_witness:
  "list_all (\<lambda>i. ev_attrs i ''data'' \<noteq> None) ex_events \<and>
   ex_get_multi [Some ''a'', Some ''a'', Some ''b''] =
     Inr [Some ''a'' \<mapsto> Some [(''message'', ''boom'')]] \<and>
   ev_attrs (ex_event ''e3'' 2) ''data'' = Some 2 \<and>
   nd_id (nodes ex_state 2) = Some ''b'' \<and>
   Some ''b'' \<notin> dom [Some ''a'' \<mapsto> Some [(''message'', ''boom'')]] \<and>
   fst (bind_nodes ex_get_multi ex_get_ref ex_state ex_events ''data'') = None \<and>
   nd_data (nodes (snd (bind_nodes ex_get_multi ex_get_ref ex_state ex_events ''data'')) 2) =
     Some []"
proof -
  have h1: "\<forall>i\<in>set ex_events. ev_attrs i ''data'' \<noteq> None"
    by (simp add: ex_defs)
  have h2: "ex_get_multi (filter truthy (map (event_node_id (nodes ex_state) ''data'') ex_events)) =
            Inr [Some ''a'' \<mapsto> Some [(''message'', ''boom'')]]"
    by (simp add: ex_get_multi_def)
  have h3: "ex_event ''e3'' 2 \<in> set ex_events" by (simp add: ex_events_def)
  have h4: "ev_attrs (ex_event ''e3'' 2) ''data'' = Some 2" by (simp add: ex_event_def)
  have h5: "truthy (nd_id (nodes ex_state 2))" by (simp add: ex_state_def ex_nodes_def)
  have h6: "nd_id (nodes ex_state 2) \<notin> dom [Some ''a'' \<mapsto> Some [(''message'', ''boom'')]]"
    by (simp add: ex_state_def ex_nodes_def)
  show ?thesis
    using h1 h4 h6
      bind_nodes_missing_blob [where gm = ex_get_multi and gr = ex_get_ref and s = ex_state
        and xs = ex_events and n = "''data''", OF h1 h2 h3 h4 h5 h6]
    by (simp add: ex_get_multi_def ex_state_def ex_nodes_def list_all_iff)
qed

text \<open>
  C8. \<^verbatim>\<open>bind_nodes\<close> skips every event whose node reference carries no node id: the
  call does what it does on the input with those events taken out (same key list,
  same outcome, same final state), so they add nothing to the multi-get and raise
  nothing; and the NodeData of each such event is the same after the call as before.
\<close>

theorem bind_nodes_skips_events_without_node_id:
  assumes "\<forall>i\<in>set xs. ev_attrs i n \<noteq> None"
  shows "bind_nodes gm gr s xs n =
           bind_nodes gm gr s (filter (has_node_id (nodes s) n) xs) n \<and>
         (\<forall>i\<in>set xs. \<forall>a. ev_attrs i n = Some a \<and> \<not> truthy (nd_id (nodes s a)) \<longrightarrow>
            nodes (snd (bind_nodes gm gr s xs n)) a = nodes s a)"
proof -
  from assms obtain onl where onl: "object_node_list (nodes s) n xs = Inr onl"
    using object_node_list_total [of xs n "nodes s"] by auto
  have "bind_nodes gm gr s (filter (has_node_id (nodes s) n) xs) n = bind_nodes gm gr s xs n"
    by (simp add: bind_nodes_def object_node_list_filter [OF assms])
  moreover have "nodes (snd (bind_nodes gm gr s xs n)) a = nodes s a"
    if "\<not> truthy (nd_id (nodes s a))" for a
  proof -
    have "a \<notin> snd ` set onl"
      using object_node_list_mem [OF onl] that by force
    then have "bind_loop gr res onl (nodes s) a = nodes s a" for res
      by (rule bind_loop_other)
    then show ?thesis
      by (simp add: bind_nodes_unfold [OF onl] Let_def split: sum.splits)
  qed
  ultimately show ?thesis by simp
qed

theorem bind_nodes_skips_events_without_node_id_witness:
  "list_all (\<lambda>i. ev_attrs i ''data'' \<noteq> None) ex_events \<and>
   ev_attrs (ex_event ''e4'' 3) ''data'' = Some 3 \<and>
   \<not> truthy (nd_id (nodes ex_state 3)) \<and>
   bind_nodes ex_get_multi ex_get_ref ex_state ex_events ''data'' =
     bind_nodes ex_get_multi ex_get_ref ex_state
       [ex_event ''e1'' 0, ex_event ''e2'' 1, ex_event ''e3'' 2] ''data'' \<and>
   nodes (snd (bind_nodes ex_get_multi ex_get_ref ex_state ex_events ''data'')) 3 =
     \<lparr>nd_id = None, nd_data = Some [(''k'', ''v'')], nd_ref = None\<rparr>"
proof -
  have h1: "\<forall>i\<in>set ex_events. ev_attrs i ''data'' \<noteq> None"
    by (simp add: ex_defs)
  have flt: "filter (has_node_id (nodes ex_state) ''data'') ex_events =
             [ex_event ''e1'' 0, ex_event ''e2'' 1, ex_event ''e3'' 2]"
    by (simp add: ex_defs has_node_id_def event_node_id_def)
  have e4: "ex_event ''e4'' 3 \<in> set ex_events" by (simp add: ex_events_def)
  have at: "ev_attrs (ex_event ''e4'' 3) ''data'' = Some 3" by (simp add: ex_event_def)
  have nt: "\<not> truthy (nd_id (nodes ex_state 3))" by (simp add: ex_state_def ex_nodes_def)
  have old: "nodes ex_state 3 = \<lparr>nd_id = None, nd_data = Some [(''k'', ''v'')], nd_ref = None\<rparr>"
    by (simp add: ex_state_def ex_nodes_def)
  from bind_nodes_skips_events_without_node_id [OF h1, of ex_get_multi ex_get_ref ex_state]
  have both:
    "bind_nodes ex_get_multi ex_get_ref ex_state ex_events ''data'' =
       bind_nodes ex_get_multi ex_get_ref ex_state
         (filter (has_node_id (nodes ex_state) ''data'') ex_events) ''data''"
    "\<forall>i\<in>set ex_events. \<forall>a. ev_attrs i ''data'' = Some a \<and> \<not> truthy (nd_id (nodes ex_state a)) \<longrightarrow>
       nodes (snd (bind_nodes ex_get_multi ex_get_ref ex_state ex_events ''data'')) a =
       nodes ex_state a"
    by blast+
  from both(2) e4 at nt
  have "nodes (snd (bind_nodes ex_get_multi ex_get_ref ex_state ex_events ''data'')) 3 =
        nodes ex_state 3"
    by blast
  with both(1) h1 at nt show ?thesis
    by (simp only: flt old list_all_iff simp_thms)
qed

text \<open>
  C9. When a \<^verbatim>\<open>bind_nodes\<close> call returns, any two events of its input whose node
  references carry the same node id have the same body bound.
\<close>

theorem bind_nodes_same_id_same_body:
  assumes "fst (bind_nodes gm gr s xs n) = None"
      and "i \<in> set xs" and "ev_attrs i n = Some a"
      and "j \<in> set xs" and "ev_attrs j n = Some b"
      and "truthy (nd_id (nodes s a))" and "nd_id (nodes s a) = nd_id (nodes s b)"
  shows "nd_data (nodes (snd (bind_nodes gm gr s xs n)) a) =
         nd_data (nodes (snd (bind_nodes gm gr s xs n)) b)"
proof -
  from assms(1) obtain onl where onl: "object_node_list (nodes s) n xs = Inr onl"
    by (auto simp: bind_nodes_def split: sum.splits)
  have a: "a \<in> snd ` set onl"
    using object_node_list_mem_conv [OF onl assms(2,3,6)] by force
  have b: "b \<in> snd ` set onl"
    using object_node_list_mem_conv [OF onl assms(4,5)] assms(6,7) by force
  have "has_node_id (nodes s) n i"
    using assms(3,6) by (simp add: has_node_id_def event_node_id_def)
  with assms(2) have ne: "filter truthy (map (event_node_id (nodes s) n) xs) \<noteq> []"
    using keys_empty_conv [of "nodes s" n xs] by auto
  from assms(1) ne obtain res where
    res: "gm (filter truthy (map (event_node_id (nodes s) n) xs)) = Inr res"
    by (auto simp: bind_nodes_unfold [OF onl] Let_def split: sum.splits)
  show ?thesis
    using ne res bind_loop_data [OF a, of gr res "nodes s"]
      bind_loop_data [OF b, of gr res "nodes s"] assms(7)
    by (simp add: bind_nodes_unfold [OF onl] Let_def)
qed

theorem bind_nodes_same_id_same_body_witness:
  "fst (bind_nodes ex_get_multi ex_get_ref ex_state ex_events ''data'') = None \<and>
   ev_attrs (ex_event ''e1'' 0) ''data'' = Some 0 \<and>
   ev_attrs (ex_event ''e2'' 1) ''data'' = Some 1 \<and>
   nd_id (nodes ex_state 0) = Some ''a'' \<and> nd_id (nodes ex_state 1) = Some ''a'' \<and>
   nd_data (nodes (snd (bind_nodes ex_get_multi ex_get_ref ex_state ex_events ''data'')) 0) =
   nd_data (nodes (snd (bind_nodes ex_get_multi ex_get_ref ex_state ex_events ''data'')) 1) \<and>
   nd_data (nodes (snd (bind_nodes ex_get_multi ex_get_ref ex_state ex_events ''data'')) 0) =
     Some [(''message'', ''boom'')]"
proof -
  have h1: "fst (bind_nodes ex_get_multi ex_get_ref ex_state ex_events ''data'') = None"
    by (simp add: bind_nodes_def ex_defs Let_def)
  have h2: "ex_event ''e1'' 0 \<in> set ex_events" by (simp add: ex_events_def)
  have h3: "ev_attrs (ex_event ''e1'' 0) ''data'' = Some 0" by (simp add: ex_event_def)
  have h4: "ex_event ''e2'' 1 \<in> set ex_events" by (simp add: ex_events_def)
  have h5: "ev_attrs (ex_event ''e2'' 1) ''data'' = Some 1" by (simp add: ex_event_def)
  have h6: "truthy (nd_id (nodes ex_state 0))" by (simp add: ex_state_def ex_nodes_def)
  have h7: "nd_id (nodes ex_state 0) = nd_id (nodes ex_state 1)"
    by (simp add: ex_state_def ex_nodes_def)
  have ids: "nd_id (nodes ex_state 0) = Some ''a''" "nd_id (nodes ex_state 1) = Some ''a''"
    by (simp_all add: ex_state_def ex_nodes_def)
  have body: "nd_data (nodes (snd (bind_nodes ex_get_multi ex_get_ref ex_state ex_events ''data'')) 0) =
              Some [(''message'', ''boom'')]"
    by (simp add: bind_nodes_def ex_defs Let_def bind_data_def dict_get_def or_empty_def)
  show ?thesis
    using h1 h3 h5 ids body bind_nodes_same_id_same_body [OF h1 h2 h3 h4 h5 h6 h7]
    by simp
qed

text \<open>
  C10. When no event of the input carries a node id (the empty list included),
  \<^verbatim>\<open>bind_nodes\<close> returns without a call to the blob store and without a change to any
  event: the state after the call is the state before it.
\<close>

theorem bind_nodes_no_node_ids:
  assumes "\<forall>i\<in>set xs. \<exists>a. ev_attrs i n = Some a \<and> \<not> truthy (nd_id (nodes s a))"
  shows "bind_nodes gm gr s xs n = (None, s)"
proof -
  from assms have "\<forall>i\<in>set xs. ev_attrs i n \<noteq> None" by auto
  then obtain onl where onl: "object_node_list (nodes s) n xs = Inr onl"
    using object_node_list_total [of xs n "nodes s"] by auto
  have "\<not> (\<exists>i\<in>set xs. has_node_id (nodes s) n i)"
    using assms by (auto simp: has_node_id_def event_node_id_def)
  then show ?thesis
    using keys_empty_conv [of "nodes s" n xs]
    by (simp add: bind_nodes_unfold [OF onl] Let_def)
qed

theorem bind_nodes_no_node_ids_witness:
  "ev_attrs (ex_event ''e4'' 3) ''data'' = Some 3 \<and> \<not> truthy (nd_id (nodes ex_state 3)) \<and>
   bind_nodes ex_get_multi ex_get_ref ex_state [ex_event ''e4'' 3, ex_event ''e5'' 3] ''data'' =
     (None, ex_state) \<and>
   bind_nodes ex_get_multi ex_get_ref ex_state [] ''data'' = (None, ex_state)"
proof -
  have h1: "\<forall>i\<in>set [ex_event ''e4'' 3, ex_event ''e5'' 3].
              \<exists>a. ev_attrs i ''data'' = Some a \<and> \<not> truthy (nd_id (nodes ex_state a))"
    by (simp add: ex_defs)
  have h2: "\<forall>i\<in>set ([] :: Event list).
              \<exists>a. ev_attrs i ''data'' = Some a \<and> \<not> truthy (nd_id (nodes ex_state a))"
    by simp
  have h3: "ev_attrs (ex_event ''e4'' 3) ''data'' = Some 3 \<and> \<not> truthy (nd_id (nodes ex_state 3))"
    by (simp add: ex_defs)
  show ?thesis
    using h3 bind_nodes_no_node_ids [OF h1, of ex_get_multi ex_get_ref]
      bind_nodes_no_node_ids [OF h2, of ex_get_multi ex_get_ref]
    by simp
qed

section \<open>The query methods: the claims, on the model of the specification\<close>

lemma valid_columns_always: "valid_columns cols"
  by (simp add: valid_columns_def list_all_iff full_columns_cover)

lemma row_key_project: "row_key (project_row cols r) = row_key r"
  by (simp add: row_key_def project_row_def)

lemma next_after_mid:
  "distinct (map f xs) \<Longrightarrow> xs = as @ x # y # bs \<Longrightarrow>
     next_after (\<lambda>r. f r = f x) xs = Some y"
proof (induction as arbitrary: xs)
  case Nil
  then show ?case by simp
next
  case (Cons a as)
  then have neq: "f a \<noteq> f x" by auto
  from Cons.prems have d: "distinct (map f (as @ x # y # bs))" by simp
  have step: "next_after (\<lambda>r. f r = f x) (a # as @ x # y # bs) =
              next_after (\<lambda>r. f r = f x) (as @ x # y # bs)"
    using neq by (cases as) simp_all
  show ?case
    using Cons.IH [OF d refl] step Cons.prems(2) by simp
qed

lemma next_after_key:
  assumes "distinct (map row_key xs)" and "xs = as @ x # y # bs" and "row_key E = row_key x"
  shows "next_after (\<lambda>r. row_key r = row_key E) xs = Some y"
  using next_after_mid [OF assms(1,2)] assms(3) by simp

lemma split_not_last:
  assumes "x \<in> set xs" and "f x \<noteq> f (last xs)"
  shows "\<exists>as y bs. xs = as @ x # y # bs"
proof -
  from assms(1) obtain as zs where xs: "xs = as @ x # zs" by (auto dest: split_list)
  with assms(2) have "zs \<noteq> []" by auto
  then obtain y bs where "zs = y # bs" by (cases zs) auto
  with xs show ?thesis by auto
qed

lemma split_not_hd:
  assumes "x \<in> set xs" and "f x \<noteq> f (hd xs)"
  shows "\<exists>as y bs. xs = as @ y # x # bs"
proof -
  from assms(1) obtain zs bs where xs: "xs = zs @ x # bs" by (auto dest: split_list)
  with assms(2) have "zs \<noteq> []" by auto
  then obtain as y where "zs = as @ [y]" by (cases zs rule: rev_cases) auto
  with xs show ?thesis by auto
qed

lemma listing_set:
  "set (listing rows conditions filter_keys) = {r \<in> set rows. matches conditions filter_keys r}"
  by (auto simp: listing_def default_order_def)

lemma listing_distinct:
  "distinct (map row_key rows) \<Longrightarrow> distinct (map row_key (listing rows conditions filter_keys))"
  by (auto simp: distinct_map listing_def default_order_def intro: inj_on_subset)

lemma find_key:
  "r \<in> set rows \<Longrightarrow> \<exists>r'. find (\<lambda>q. row_key q = row_key r) rows = Some r' \<and> row_key r' = row_key r"
  by (cases "find (\<lambda>q. row_key q = row_key r) rows")
     (auto simp: find_None_iff dest: find_Some_iff [THEN iffD1])

lemma find_key_project:
  assumes "r \<in> set rows"
  shows "\<exists>F. spec_get_event_by_id rows (fst (row_key r)) (snd (row_key r)) cols = Inr F \<and>
             row_key F = row_key r"
proof -
  from find_key [OF assms] obtain r' where
    "find (\<lambda>q. row_key q = row_key r) rows = Some r'" "row_key r' = row_key r" by blast
  then show ?thesis
    by (simp add: spec_get_event_by_id_def valid_columns_always row_key_project)
qed

lemma get_events_in_listing:
  assumes "spec_get_events rows start until cols conditions filter_keys limit offset = Inr evs"
      and "E \<in> set evs"
  shows "\<exists>x \<in> set (listing rows conditions filter_keys). row_key x = row_key E"
proof -
  let ?sel = "filter (\<lambda>r. start \<le> row_timestamp r \<and> row_timestamp r \<le> until \<and>
                         matches conditions filter_keys r) rows"
  from assms(1) have evs: "evs = map (project_row cols) (take limit (drop offset (default_order ?sel)))"
    by (simp add: spec_get_events_def split: if_splits)
  with assms(2) obtain x where x: "x \<in> set (take limit (drop offset (default_order ?sel)))"
    and E: "E = project_row cols x" by auto
  from x have "x \<in> set (default_order ?sel)"
    by (blast dest: in_set_takeD in_set_dropD)
  then have "x \<in> set (listing rows conditions filter_keys)"
    by (simp add: listing_set) (simp add: default_order_def)
  with E show ?thesis by (auto simp: row_key_project)
qed

lemmas ex_row_defs = ex_row_def ex_rows_def

text \<open>
  C4, on the model of the specification. Let the stored rows have pairwise distinct
  (project id, event id) pairs, and let \<open>E\<close> be an event returned by \<^verbatim>\<open>get_events\<close>
  under the default ordering that is neither the first nor the last of the matching
  rows. Then \<^verbatim>\<open>get_next_event_id\<close> on \<open>E\<close> returns the key of an event on which
  \<^verbatim>\<open>get_prev_event_id\<close> returns \<open>E\<close>'s own (project id, event id), and likewise with
  next and previous exchanged: under a fixed filter the two are mutual inverses. The
  event between the two lookups is fetched by \<^verbatim>\<open>get_event_by_id\<close>.
\<close>

theorem next_prev_round_trip:
  assumes uniq: "distinct (map row_key rows)"
      and evs: "spec_get_events rows start until cols conditions filter_keys limit offset = Inr evs"
      and E: "E \<in> set evs"
      and not_first: "row_key E \<noteq> row_key (hd (listing rows conditions filter_keys))"
      and not_last: "row_key E \<noteq> row_key (last (listing rows conditions filter_keys))"
  shows "(\<exists>k F. spec_get_next_event_id rows E conditions filter_keys = Inr k \<and>
            spec_get_event_by_id rows (fst k) (snd k) cols = Inr F \<and>
            spec_get_prev_event_id rows F conditions filter_keys = Inr (row_key E)) \<and>
         (\<exists>k F. spec_get_prev_event_id rows E conditions filter_keys = Inr k \<and>
            spec_get_event_by_id rows (fst k) (snd k) cols = Inr F \<and>
            spec_get_next_event_id rows F conditions filter_keys = Inr (row_key E))"
proof -
  let ?L = "listing rows conditions filter_keys"
  have dL: "distinct (map row_key ?L)" using uniq by (rule listing_distinct)
  then have dR: "distinct (map row_key (rev ?L))" by (simp add: rev_map [symmetric])
  from get_events_in_listing [OF evs E] obtain x where
    x: "x \<in> set ?L" and kx: "row_key x = row_key E" by blast
  have in_rows: "r \<in> set rows" if "r \<in> set ?L" for r
    using that by (simp add: listing_set)
  \<comment> \<open>the newer neighbour\<close>
  from x not_first kx obtain as y bs where L1: "?L = as @ y # x # bs"
    using split_not_hd [of x ?L row_key] by auto
  then have R1: "rev ?L = rev bs @ x # y # rev as" by simp
  have nx: "next_after (\<lambda>r. row_key r = row_key E) (rev ?L) = Some y"
    using next_after_key [OF dR R1] kx by simp
  from L1 have "y \<in> set ?L" by simp
  then obtain F where F: "spec_get_event_by_id rows (fst (row_key y)) (snd (row_key y)) cols = Inr F"
    and kF: "row_key F = row_key y"
    using find_key_project [OF in_rows] by blast
  have "next_after (\<lambda>r. row_key r = row_key F) ?L = Some x"
    using next_after_key [OF dL L1] kF by simp
  with nx F kx have first: "\<exists>k F. spec_get_next_event_id rows E conditions filter_keys = Inr k \<and>
            spec_get_event_by_id rows (fst k) (snd k) cols = Inr F \<and>
            spec_get_prev_event_id rows F conditions filter_keys = Inr (row_key E)"
    by (auto simp: spec_get_next_event_id_def spec_get_prev_event_id_def)
  \<comment> \<open>the older neighbour\<close>
  from x not_last kx obtain cs z ds where L2: "?L = cs @ x # z # ds"
    using split_not_last [of x ?L row_key] by auto
  then have R2: "rev ?L = rev ds @ z # x # rev cs" by simp
  have pv: "next_after (\<lambda>r. row_key r = row_key E) ?L = Some z"
    using next_after_key [OF dL L2] kx by simp
  from L2 have "z \<in> set ?L" by simp
  then obtain G where G: "spec_get_event_by_id rows (fst (row_key z)) (snd (row_key z)) cols = Inr G"
    and kG: "row_key G = row_key z"
    using find_key_project [OF in_rows] by blast
  have "next_after (\<lambda>r. row_key r = row_key G) (rev ?L) = Some x"
    using next_after_key [OF dR R2] kG by simp
  with pv G kx have second: "\<exists>k F. spec_get_prev_event_id rows E conditions filter_keys = Inr k \<and>
            spec_get_event_by_id rows (fst k) (snd k) cols = Inr F \<and>
            spec_get_next_event_id rows F conditions filter_keys = Inr (row_key E)"
    by (auto simp: spec_get_next_event_id_def spec_get_prev_event_id_def)
  from first second show ?thesis by blast
qed

text \<open>The example scenario: the listing, and the first page of two events.\<close>

lemma ex_listing:
  "listing ex_rows [] (\<lambda>_. True) = [ex_row ''e3'' 300, ex_row ''e2'' 200, ex_row ''e1'' 100]"
  by (simp add: listing_def default_order_def matches_def ex_row_defs)

lemma ex_get_events:
  "spec_get_events ex_rows 0 1000 minimal_columns [] (\<lambda>_. True) 2 0 =
     Inr [project_row minimal_columns (ex_row ''e3'' 300),
          project_row minimal_columns (ex_row ''e2'' 200)]"
  by (simp add: spec_get_events_def valid_columns_always default_order_def matches_def
        ex_row_defs)

theorem next_prev_round_trip_witness:
  "distinct (map row_key ex_rows) \<and>
   spec_get_events ex_rows 0 1000 minimal_columns [] (\<lambda>_. True) 2 0 =
     Inr [project_row minimal_columns (ex_row ''e3'' 300),
          project_row minimal_columns (ex_row ''e2'' 200)] \<and>
   listing ex_rows [] (\<lambda>_. True) = [ex_row ''e3'' 300, ex_row ''e2'' 200, ex_row ''e1'' 100] \<and>
   spec_get_next_event_id ex_rows (project_row minimal_columns (ex_row ''e2'' 200)) []
     (\<lambda>_. True) = Inr (42, ''e3'') \<and>
   spec_get_event_by_id ex_rows 42 ''e3'' minimal_columns =
     Inr (project_row minimal_columns (ex_row ''e3'' 300)) \<and>
   spec_get_prev_event_id ex_rows (project_row minimal_columns (ex_row ''e3'' 300)) []
     (\<lambda>_. True) = Inr (42, ''e2'') \<and>
   spec_get_prev_event_id ex_rows (project_row minimal_columns (ex_row ''e2'' 200)) []
     (\<lambda>_. True) = Inr (42, ''e1'') \<and>
   spec_get_event_by_id ex_rows 42 ''e1'' minimal_columns =
     Inr (project_row minimal_columns (ex_row ''e1'' 100)) \<and>
   spec_get_next_event_id ex_rows (project_row minimal_columns (ex_row ''e1'' 100)) []
     (\<lambda>_. True) = Inr (42, ''e2'')"
proof -
  let ?E = "project_row minimal_columns (ex_row ''e2'' 200)"
  have h1: "distinct (map row_key ex_rows)"
    by (simp add: ex_row_defs row_key_def)
  have h3: "?E \<in> set [project_row minimal_columns (ex_row ''e3'' 300), ?E]" by simp
  have h4: "row_key ?E \<noteq> row_key (hd (listing ex_rows [] (\<lambda>_. True)))"
    by (simp add: ex_listing row_key_project) (simp add: row_key_def ex_row_def)
  have h5: "row_key ?E \<noteq> row_key (last (listing ex_rows [] (\<lambda>_. True)))"
    by (simp add: ex_listing row_key_project) (simp add: row_key_def ex_row_def)
  have keys: "row_key (ex_row e t) = (42, e)" for e t
    by (simp add: row_key_def ex_row_def)
  have ev3: "spec_get_event_by_id ex_rows 42 ''e3'' minimal_columns =
             Inr (project_row minimal_columns (ex_row ''e3'' 300))"
    by (simp add: spec_get_event_by_id_def valid_columns_always ex_rows_def keys)
  have ev1: "spec_get_event_by_id ex_rows 42 ''e1'' minimal_columns =
             Inr (project_row minimal_columns (ex_row ''e1'' 100))"
    by (simp add: spec_get_event_by_id_def valid_columns_always ex_rows_def keys)
  show ?thesis
    using next_prev_round_trip [OF h1 ex_get_events h3 h4 h5] h1 ex_get_events ex_listing
      ev3 ev1
    by (simp add: spec_get_next_event_id_def spec_get_prev_event_id_def row_key_project keys)
qed

text \<open>
  C6, on the model of the specification. For every (project id, event id) pair that no
  stored row has, \<^verbatim>\<open>get_event_by_id\<close> fails with \<open>NotFound\<close>, whatever the requested
  columns; it returns no event, empty or partial, for such a pair.
\<close>

theorem get_event_by_id_not_found:
  assumes "\<forall>r\<in>set rows. row_key r \<noteq> (pid, eid)"
  shows "spec_get_event_by_id rows pid eid cols = Inl NotFound"
  using assms
  by (simp add: spec_get_event_by_id_def valid_columns_always find_None_iff [THEN iffD2])

theorem get_event_by_id_not_found_witness:
  "list_all (\<lambda>r. row_key r \<noteq> (42, ''e9'')) ex_rows \<and>
   spec_get_event_by_id ex_rows 42 ''e9'' full_columns = Inl NotFound \<and>
   list_all (\<lambda>r. row_key r \<noteq> (7, ''e1'')) ex_rows \<and>
   spec_get_event_by_id ex_rows 7 ''e1'' minimal_columns = Inl NotFound"
proof -
  have h1: "\<forall>r\<in>set ex_rows. row_key r \<noteq> (42, ''e9'')"
    by (simp add: ex_row_defs row_key_def)
  have h2: "\<forall>r\<in>set ex_rows. row_key r \<noteq> (7, ''e1'')"
    by (simp add: ex_row_defs row_key_def)
  show ?thesis
    using h1 h2 get_event_by_id_not_found [OF h1, of full_columns]
      get_event_by_id_not_found [OF h2, of minimal_columns]
    by (simp add: list_all_iff)
qed

section \<open>\<^verbatim>\<open>get_events\<close>: the declaration in the source\<close>


end
